theory Spec2Isabelle
  imports Complex_Main "HOL-Library.Multiset"
begin

section \<open>Data model (lib/api)\<close>

datatype PromptType = prompt | response

record PromptEvent =
  id_ev :: string
  type_ev :: PromptType
  content :: string
  audioUrl :: "string option"
  createdAt :: string

record SessionSummary =
  summary :: string
  tips :: "string list"
  generatedAt :: string

record SessionStartResponse =
  sessionId_r :: string
  expiresAt :: string
  initialPrompt :: "PromptEvent option"

text \<open>
  A value caught by a \<^verbatim>\<open>catch (err)\<close> clause: either an \<^verbatim>\<open>Error\<close> object with its
  message, or anything else. \<^verbatim>\<open>err instanceof Error ? err.message : fallback\<close>.
\<close>

datatype thrown = Error string | NonError

fun message_or :: "thrown \<Rightarrow> string \<Rightarrow> string" where
  "message_or (Error m) fallback = m"
| "message_or NonError fallback = fallback"

text \<open>
  JavaScript truthiness of a \<^verbatim>\<open>string | null\<close>: \<^verbatim>\<open>null\<close> and the empty string are falsy.
\<close>

fun falsy :: "string option \<Rightarrow> bool" where
  "falsy None = True"
| "falsy (Some v) = (v = [])"

section \<open>The audio recorder hook (hooks/useAudioRecorder)\<close>

datatype RecordingState = inactive | recording

record AudioRecorder =
  mediaRecorderRef :: "RecordingState option"
  isRecording :: bool
  recordingError :: "string option"
  chunkSequenceRef :: nat

text \<open>What the code does to its collaborators, in the order it does it.\<close>

datatype action =
    GetUserMedia
  | RecorderStop
  | OnChunk nat
  | ConsoleError
  | StopRecording
  | CloseEventSource
  | CallStartSession
  | CallCompleteSession string
  | CallFetchPersistedSummary string

text \<open>
  \<^verbatim>\<open>start\<close>, resumed when \<^verbatim>\<open>getUserMedia\<close> has settled. The whole body is inside
  \<^verbatim>\<open>try\<close>; the \<^verbatim>\<open>catch\<close> logs, sets the hook's own error and does not rethrow, so the
  promise that \<^verbatim>\<open>start\<close> returns always fulfils.
\<close>

definition start :: "thrown + unit \<Rightarrow> AudioRecorder \<Rightarrow> AudioRecorder \<times> action list" where
  "start acquired r =
     (case acquired of
        Inr stream \<Rightarrow>
          (r\<lparr>mediaRecorderRef := Some recording, chunkSequenceRef := 0,
             isRecording := True, recordingError := None\<rparr>, [])
      | Inl err \<Rightarrow>
          (r\<lparr>recordingError := Some (message_or err ''Unable to start audio recorder'')\<rparr>,
           [ConsoleError]))"

definition stop :: "AudioRecorder \<Rightarrow> AudioRecorder \<times> action list" where
  "stop r =
     (case mediaRecorderRef r of
        Some recording \<Rightarrow> (r\<lparr>mediaRecorderRef := Some inactive\<rparr>, [RecorderStop])
      | Some inactive \<Rightarrow> (r, [])
      | None \<Rightarrow> (r, []))"

text \<open>
  The events of one recorder: a \<^verbatim>\<open>dataavailable\<close> event with the size of its blob, the
  settling of an earlier \<^verbatim>\<open>onChunk\<close> promise (fulfilled or rejected, at any later time),
  and the recorder's \<^verbatim>\<open>stop\<close> event. The counter is a JavaScript number; it is exact on
  the integers below \<open>2 ^ 53\<close>, which no recording reaches, and is a \<open>nat\<close> here.
\<close>

datatype recorder_event = DataAvailable nat | SinkSettled bool | Stopped

fun recorder_step :: "recorder_event \<Rightarrow> AudioRecorder \<times> action list \<Rightarrow> AudioRecorder \<times> action list" where
  "recorder_step (DataAvailable size_ev) (r, tr) =
     (if size_ev > 0
      then (let r' = r\<lparr>chunkSequenceRef := chunkSequenceRef r + 1\<rparr>
            in (r', tr @ [OnChunk (chunkSequenceRef r')]))
      else (r, tr))"
| "recorder_step (SinkSettled ok) (r, tr) = (if ok then (r, tr) else (r, tr @ [ConsoleError]))"
| "recorder_step Stopped (r, tr) = (r\<lparr>isRecording := False\<rparr>, tr)"

definition recorder_run :: "recorder_event list \<Rightarrow> AudioRecorder \<Rightarrow> AudioRecorder \<times> action list" where
  "recorder_run evs r = foldl (\<lambda>st ev. recorder_step ev st) (r, []) evs"

fun sequences :: "action list \<Rightarrow> nat list" where
  "sequences [] = []"
| "sequences (OnChunk n # as) = n # sequences as"
| "sequences (a # as) = sequences as"

fun nonempty_chunks :: "recorder_event list \<Rightarrow> nat" where
  "nonempty_chunks [] = 0"
| "nonempty_chunks (DataAvailable size_ev # evs) =
     (if size_ev > 0 then Suc (nonempty_chunks evs) else nonempty_chunks evs)"
| "nonempty_chunks (ev # evs) = nonempty_chunks evs"

section \<open>The countdown timer (components/SessionTimer)\<close>

text \<open>
  The state of the effect while \<^verbatim>\<open>isRunning\<close> holds: the displayed \<^verbatim>\<open>remainingMs\<close>, the
  \<^verbatim>\<open>start\<close> instant read from the monotonic clock, whether an animation-frame request is
  outstanding, and how often \<^verbatim>\<open>onExpire\<close> has been called. Instants are milliseconds.
\<close>

record SessionTimer =
  remainingMs :: real
  start_at :: real
  requested :: bool
  expireCalls :: nat

definition tick :: "real \<Rightarrow> real \<Rightarrow> SessionTimer \<Rightarrow> SessionTimer" where
  "tick durationMs now t =
     (let elapsed = now - start_at t;
          nextRemaining = max (durationMs - elapsed) 0
      in if nextRemaining = 0
         then t\<lparr>remainingMs := nextRemaining, expireCalls := expireCalls t + 1\<rparr>
         else t\<lparr>remainingMs := nextRemaining, requested := True\<rparr>)"

text \<open>
  The browser delivers an animation frame: the callback runs only when a request is
  outstanding (a cancelled request never runs), and the request is consumed by running it.
\<close>

definition animation_frame :: "real \<Rightarrow> real \<Rightarrow> SessionTimer \<Rightarrow> SessionTimer" where
  "animation_frame durationMs now t =
     (if requested t then tick durationMs now (t\<lparr>requested := False\<rparr>) else t)"

text \<open>
  The effect, run at instant \<open>now\<close> of the monotonic clock, and the cleanup it returns when
  it armed the timer. Arming is the effect with \<^verbatim>\<open>isRunning\<close> true; disarming is the
  cleanup followed by the effect with \<^verbatim>\<open>isRunning\<close> false.
\<close>

definition timer_effect :: "real \<Rightarrow> bool \<Rightarrow> real \<Rightarrow> SessionTimer \<Rightarrow> SessionTimer" where
  "timer_effect durationMs isRunning now t =
     (if isRunning then t\<lparr>start_at := now, requested := True\<rparr>
      else t\<lparr>remainingMs := durationMs\<rparr>)"

definition timer_cleanup :: "SessionTimer \<Rightarrow> SessionTimer" where
  "timer_cleanup t = t\<lparr>requested := False\<rparr>"

definition arm :: "real \<Rightarrow> real \<Rightarrow> SessionTimer \<Rightarrow> SessionTimer" where
  "arm durationMs now t = timer_effect durationMs True now t"

definition disarm :: "real \<Rightarrow> real \<Rightarrow> SessionTimer \<Rightarrow> SessionTimer" where
  "disarm durationMs now t = timer_effect durationMs False now (timer_cleanup t)"

definition frames :: "real \<Rightarrow> real list \<Rightarrow> SessionTimer \<Rightarrow> SessionTimer" where
  "frames durationMs nows t = foldl (\<lambda>st now. animation_frame durationMs now st) t nows"

section \<open>The page (HomePage)\<close>

datatype SessionPhase = idle | running | completed

text \<open>
  A value as \<^verbatim>\<open>JSON.parse\<close> returns it. An object is the list of its properties, each
  key once; numbers are reals.
\<close>

datatype json =
    JNull
  | JBool bool
  | JNumber real
  | JString string
  | JArray "json list"
  | JObject "(string \<times> json) list"

text \<open>
  What a variable declared \<^verbatim>\<open>SessionSummary | null\<close> holds when it is not \<^verbatim>\<open>null\<close>: a
  summary, or, after the unchecked cast \<^verbatim>\<open>JSON.parse(cached) as SessionSummary\<close>, whatever
  other value the text parsed to.
\<close>

datatype summary_value = Summary SessionSummary | Miscast json

fun truthy_json :: "json \<Rightarrow> bool" where
  "truthy_json JNull = False"
| "truthy_json (JBool b) = b"
| "truthy_json (JNumber x) = (x \<noteq> 0)"
| "truthy_json (JString v) = (v \<noteq> [])"
| "truthy_json (JArray vs) = True"
| "truthy_json (JObject kvs) = True"

fun truthy_summary :: "summary_value option \<Rightarrow> bool" where
  "truthy_summary None = False"
| "truthy_summary (Some (Summary v)) = True"
| "truthy_summary (Some (Miscast v)) = truthy_json v"

text \<open>
  The one slot of \<^verbatim>\<open>sessionStorage\<close> the page uses, \<^verbatim>\<open>latestJournalSummary\<close>. Its text
  is given by what \<^verbatim>\<open>JSON.parse\<close> makes of it: what \<^verbatim>\<open>JSON.stringify\<close> wrote of a
  summary, read back as that summary; a text that parses to some other value, such as
  \<^verbatim>\<open>{}\<close> or \<^verbatim>\<open>42\<close> or \<^verbatim>\<open>null\<close>; or a text on which \<^verbatim>\<open>JSON.parse\<close> throws. The
  result of the parse is cast to \<^verbatim>\<open>SessionSummary\<close> without any check.
\<close>

datatype stored = Serialized SessionSummary | OtherJson json | Malformed string

fun JSON_parse :: "stored \<Rightarrow> thrown + summary_value option" where
  "JSON_parse (Serialized v) = Inr (Some (Summary v))"
| "JSON_parse (OtherJson JNull) = Inr None"
| "JSON_parse (OtherJson v) = Inr (Some (Miscast v))"
| "JSON_parse (Malformed raw) = Inl (Error ''SyntaxError'')"

definition JSON_stringify :: "SessionSummary \<Rightarrow> stored" where
  "JSON_stringify v = Serialized v"

fun truthy_stored :: "stored option \<Rightarrow> bool" where
  "truthy_stored None = False"
| "truthy_stored (Some (Serialized v)) = True"
| "truthy_stored (Some (OtherJson v)) = True"
| "truthy_stored (Some (Malformed raw)) = (raw \<noteq> [])"

record HomePage =
  sessionPhase :: SessionPhase
  sessionId :: "string option"
  events :: "PromptEvent list"
  localSummary :: "summary_value option"
  persistedSummary :: "SessionSummary option"
  isCompleting :: bool
  isFetchingPersisted :: bool
  error :: "string option"
  eventSourceRef :: "string option"
  completionGuard :: bool
  recorder :: AudioRecorder
  sessionStorage :: "stored option"

subsection \<open>appendEvent\<close>

text \<open>
  \<^verbatim>\<open>new Date(createdAt).getTime()\<close> is the host's; it is a parameter \<open>getTime\<close>, \<open>None\<close> for
  the \<^verbatim>\<open>NaN\<close> of an invalid date. The comparator subtracts, and \<^verbatim>\<open>NaN\<close> where either side
  is. \<^verbatim>\<open>Array.prototype.sort\<close> reads a \<^verbatim>\<open>NaN\<close> result as \<open>+0\<close> and is stable; on a
  consistent comparator every conforming sort returns what this insertion sort returns.
\<close>

definition compareFn :: "(string \<Rightarrow> int option) \<Rightarrow> PromptEvent \<Rightarrow> PromptEvent \<Rightarrow> int option" where
  "compareFn getTime a b =
     (case (getTime (createdAt a), getTime (createdAt b)) of
        (Some x, Some y) \<Rightarrow> Some (x - y)
      | _ \<Rightarrow> None)"

definition SortCompare :: "('a \<Rightarrow> 'a \<Rightarrow> int option) \<Rightarrow> 'a \<Rightarrow> 'a \<Rightarrow> int" where
  "SortCompare comparefn x y = (case comparefn x y of None \<Rightarrow> 0 | Some v \<Rightarrow> v)"

fun insert_stable :: "('a \<Rightarrow> 'a \<Rightarrow> int option) \<Rightarrow> 'a \<Rightarrow> 'a list \<Rightarrow> 'a list" where
  "insert_stable comparefn x [] = [x]"
| "insert_stable comparefn x (y # ys) =
     (if SortCompare comparefn x y < 0 then x # y # ys
      else y # insert_stable comparefn x ys)"

definition sort_js :: "('a \<Rightarrow> 'a \<Rightarrow> int option) \<Rightarrow> 'a list \<Rightarrow> 'a list" where
  "sort_js comparefn xs = foldl (\<lambda>acc x. insert_stable comparefn x acc) [] xs"

definition appendEvent :: "(string \<Rightarrow> int option) \<Rightarrow> PromptEvent \<Rightarrow> PromptEvent list \<Rightarrow> PromptEvent list" where
  "appendEvent getTime incoming prev =
     (let exists = list_ex (\<lambda>event. id_ev event = id_ev incoming) prev
      in if exists then prev
         else sort_js (compareFn getTime) (prev @ [incoming]))"

definition admit_all :: "(string \<Rightarrow> int option) \<Rightarrow> PromptEvent list \<Rightarrow> PromptEvent list \<Rightarrow> PromptEvent list" where
  "admit_all getTime incomings prev0 = foldl (\<lambda>prev incoming. appendEvent getTime incoming prev) prev0 incomings"

subsection \<open>resetSessionState and handleSessionStart\<close>

definition resetSessionState :: "HomePage \<Rightarrow> HomePage" where
  "resetSessionState s =
     s\<lparr>events := [], localSummary := None, persistedSummary := None, error := None,
       isCompleting := False, isFetchingPersisted := False, sessionId := None,
       completionGuard := False\<rparr>"

text \<open>
  An \<^verbatim>\<open>async\<close> function runs in pieces, one per \<^verbatim>\<open>await\<close>. \<^verbatim>\<open>handleSessionStart\<close> runs up
  to \<^verbatim>\<open>await startSession()\<close>; is resumed with the settled call, and on success runs into
  \<^verbatim>\<open>startRecording\<close> up to its \<^verbatim>\<open>await getUserMedia\<close>; and is resumed once more when the
  recorder's \<^verbatim>\<open>start\<close> has finished, with nothing left to do.
\<close>

definition handleSessionStart_enter :: "HomePage \<Rightarrow> HomePage \<times> action list" where
  "handleSessionStart_enter s = (resetSessionState s, [CallStartSession])"

definition handleSessionStart_started ::
  "(string \<Rightarrow> int option) \<Rightarrow> thrown + SessionStartResponse \<Rightarrow> HomePage \<Rightarrow> HomePage \<times> action list" where
  "handleSessionStart_started getTime settled s =
     (case settled of
        Inr resp \<Rightarrow>
          (let s1 = s\<lparr>sessionId := Some (sessionId_r resp), sessionPhase := running\<rparr>;
               s2 = (case initialPrompt resp of
                       Some p \<Rightarrow> s1\<lparr>events := appendEvent getTime p (events s1)\<rparr>
                     | None \<Rightarrow> s1)
           in (s2, [GetUserMedia]))
      | Inl err \<Rightarrow>
          (s\<lparr>error := Some (message_or err ''Unable to start session''),
             sessionPhase := idle, sessionId := None\<rparr>, [ConsoleError]))"

definition handleSessionStart_recording :: "thrown + unit \<Rightarrow> HomePage \<Rightarrow> HomePage \<times> action list" where
  "handleSessionStart_recording acquired s =
     (case start acquired (recorder s) of (r, acts) \<Rightarrow> (s\<lparr>recorder := r\<rparr>, acts))"

text \<open>The whole call, with the outcome of the remote call and of the microphone request.\<close>

definition handleSessionStart ::
  "(string \<Rightarrow> int option) \<Rightarrow> thrown + SessionStartResponse \<Rightarrow> thrown + unit \<Rightarrow> HomePage
     \<Rightarrow> HomePage \<times> action list" where
  "handleSessionStart getTime settled acquired s =
     (case handleSessionStart_enter s of (s1, a1) \<Rightarrow>
        (case handleSessionStart_started getTime settled s1 of (s2, a2) \<Rightarrow>
           (case settled of
              Inl err \<Rightarrow> (s2, a1 @ a2)
            | Inr resp \<Rightarrow>
                (case handleSessionStart_recording acquired s2 of (s3, a3) \<Rightarrow>
                   (s3, a1 @ a2 @ a3)))))"

text \<open>What the page hands to its collaborators on a render.\<close>

definition timer_isRunning :: "HomePage \<Rightarrow> bool" where
  "timer_isRunning s = (sessionPhase s = running)"

text \<open>The event-stream effect: opens a source only for a running session with an id.\<close>

definition eventStreamEffect_opens :: "HomePage \<Rightarrow> bool" where
  "eventStreamEffect_opens s = (if sessionPhase s \<noteq> running \<or> falsy (sessionId s) then False else True)"

subsection \<open>handleSessionComplete\<close>

text \<open>
  \<open>sid\<close> is the \<^verbatim>\<open>sessionId\<close> the closure captured at the render that made it; the guard is
  a ref, read and written in place. The call runs up to \<^verbatim>\<open>await completeSession\<close>, and a
  suspended call is resumed with the settled promise.
\<close>

datatype suspended = AwaitFinalize string | AwaitFetch string

definition stopRecording :: "HomePage \<Rightarrow> HomePage \<times> action list" where
  "stopRecording s = (case stop (recorder s) of (r, acts) \<Rightarrow> (s\<lparr>recorder := r\<rparr>, StopRecording # acts))"

definition eventSource_close :: "HomePage \<Rightarrow> action list" where
  "eventSource_close s = (case eventSourceRef s of None \<Rightarrow> [] | Some src \<Rightarrow> [CloseEventSource])"

definition handleSessionComplete_enter ::
  "string option \<Rightarrow> HomePage \<Rightarrow> HomePage \<times> action list \<times> suspended list" where
  "handleSessionComplete_enter sid s =
     (if falsy sid \<or> completionGuard s then (s, [], [])
      else
        (case stopRecording (s\<lparr>completionGuard := True, isCompleting := True\<rparr>) of (s1, a1) \<Rightarrow>
           (s1\<lparr>sessionPhase := completed\<rparr>,
            a1 @ eventSource_close s1 @ [CallCompleteSession (the sid)],
            [AwaitFinalize (the sid)])))"

definition complete_catch :: "thrown \<Rightarrow> HomePage \<Rightarrow> HomePage" where
  "complete_catch err s = s\<lparr>error := Some (message_or err ''Session completion failed'')\<rparr>"

definition complete_finally :: "HomePage \<Rightarrow> HomePage" where
  "complete_finally s = s\<lparr>isCompleting := False, isFetchingPersisted := False\<rparr>"

definition handleSessionComplete_finalized ::
  "string \<Rightarrow> thrown + SessionSummary \<Rightarrow> HomePage \<Rightarrow> HomePage \<times> action list \<times> suspended list" where
  "handleSessionComplete_finalized sid settled s =
     (case settled of
        Inr summ \<Rightarrow>
          (s\<lparr>localSummary := Some (Summary summ), sessionStorage := Some (JSON_stringify summ),
             isFetchingPersisted := True\<rparr>,
           [CallFetchPersistedSummary sid], [AwaitFetch sid])
      | Inl err \<Rightarrow> (complete_finally (complete_catch err s), [ConsoleError], []))"

definition handleSessionComplete_fetched ::
  "string \<Rightarrow> thrown + SessionSummary \<Rightarrow> HomePage \<Rightarrow> HomePage \<times> action list \<times> suspended list" where
  "handleSessionComplete_fetched sid settled s =
     (case settled of
        Inr persisted \<Rightarrow> (complete_finally (s\<lparr>persistedSummary := Some persisted\<rparr>), [], [])
      | Inl err \<Rightarrow> (complete_finally (complete_catch err s), [ConsoleError], []))"

text \<open>
  Calls of the handler and settlings of its remote calls, in any order: \<open>Invoke sid\<close> is a
  call (by the timer's expiry or by a manual stop) through a closure that captured \<open>sid\<close>;
  a settling resumes the oldest call suspended on that kind of promise.
\<close>

datatype completion_event =
    Invoke "string option"
  | FinalizeSettles "thrown + SessionSummary"
  | FetchSettles "thrown + SessionSummary"

fun awaiting_finalize :: "suspended list \<Rightarrow> string option" where
  "awaiting_finalize [] = None"
| "awaiting_finalize (AwaitFinalize sid # rest) = Some sid"
| "awaiting_finalize (AwaitFetch sid # rest) = awaiting_finalize rest"

fun awaiting_fetch :: "suspended list \<Rightarrow> string option" where
  "awaiting_fetch [] = None"
| "awaiting_fetch (AwaitFetch sid # rest) = Some sid"
| "awaiting_fetch (AwaitFinalize sid # rest) = awaiting_fetch rest"

fun completion_step ::
  "completion_event \<Rightarrow> HomePage \<times> suspended list \<times> action list
     \<Rightarrow> HomePage \<times> suspended list \<times> action list" where
  "completion_step (Invoke sid) (s, susp, tr) =
     (case handleSessionComplete_enter sid s of
        (s', acts, new) \<Rightarrow> (s', susp @ new, tr @ acts))"
| "completion_step (FinalizeSettles settled) (s, susp, tr) =
     (case awaiting_finalize susp of
        None \<Rightarrow> (s, susp, tr)
      | Some sid \<Rightarrow>
          (case handleSessionComplete_finalized sid settled s of
             (s', acts, new) \<Rightarrow> (s', remove1 (AwaitFinalize sid) susp @ new, tr @ acts)))"
| "completion_step (FetchSettles settled) (s, susp, tr) =
     (case awaiting_fetch susp of
        None \<Rightarrow> (s, susp, tr)
      | Some sid \<Rightarrow>
          (case handleSessionComplete_fetched sid settled s of
             (s', acts, new) \<Rightarrow> (s', remove1 (AwaitFetch sid) susp @ new, tr @ acts)))"

definition completion_run ::
  "completion_event list \<Rightarrow> HomePage \<Rightarrow> HomePage \<times> suspended list \<times> action list" where
  "completion_run evs s = foldl (\<lambda>st ev. completion_step ev st) (s, [], []) evs"

fun is_finalize :: "action \<Rightarrow> bool" where
  "is_finalize (CallCompleteSession sid) = True"
| "is_finalize a = False"

fun is_fetch :: "action \<Rightarrow> bool" where
  "is_fetch (CallFetchPersistedSummary sid) = True"
| "is_fetch a = False"

fun effective :: "completion_event \<Rightarrow> bool" where
  "effective (Invoke sid) = (if falsy sid then False else True)"
| "effective ev = False"

text \<open>
  Whether a run of events gets as far as the fetch of the persisted summary: the first
  settling of the finalize call after the guard was taken is a fulfilment. \<open>taken\<close> says
  whether the guard is taken already.
\<close>

fun fetch_due :: "bool \<Rightarrow> completion_event list \<Rightarrow> bool" where
  "fetch_due taken [] = False"
| "fetch_due taken (Invoke sid # evs) = fetch_due (if falsy sid then taken else True) evs"
| "fetch_due taken (FinalizeSettles settled # evs) =
     (if taken then (case settled of Inr v \<Rightarrow> True | Inl err \<Rightarrow> False)
      else fetch_due taken evs)"
| "fetch_due taken (FetchSettles settled # evs) = fetch_due taken evs"

definition displayedSummary :: "HomePage \<Rightarrow> summary_value option" where
  "displayedSummary s =
     (case persistedSummary s of Some p \<Rightarrow> Some (Summary p) | None \<Rightarrow> localSummary s)"

subsection \<open>Rendering the summary (components/SummaryCard)\<close>

text \<open>
  Reading a property of a parsed value: an object gives the property when it has it; a
  string, number, boolean or array has none of the properties the card reads.
\<close>

fun get_prop :: "string \<Rightarrow> json \<Rightarrow> json option" where
  "get_prop k (JObject kvs) = map_of kvs k"
| "get_prop k v = None"

fun has_slice :: "json \<Rightarrow> bool" where
  "has_slice (JString v) = True"
| "has_slice (JArray vs) = True"
| "has_slice v = False"

text \<open>
  The body of \<^verbatim>\<open>SummaryCard\<close>, as far as it can throw: \<^verbatim>\<open>summary.tips.map\<close> is a
  \<^verbatim>\<open>TypeError\<close> unless \<^verbatim>\<open>tips\<close> is an array, and so is \<^verbatim>\<open>tip.slice\<close> on a tip that is
  neither a string nor an array. The page mounts the card when \<^verbatim>\<open>displayedSummary\<close> is
  truthy; an error thrown while rendering takes the page down.
\<close>

definition SummaryCard :: "summary_value \<Rightarrow> thrown + unit" where
  "SummaryCard v =
     (case v of
        Summary s \<Rightarrow> Inr ()
      | Miscast j \<Rightarrow>
          (case get_prop ''tips'' j of
             Some (JArray ts) \<Rightarrow>
               (if list_all has_slice ts then Inr () else Inl (Error ''TypeError''))
           | _ \<Rightarrow> Inl (Error ''TypeError'')))"

definition render_summary :: "HomePage \<Rightarrow> thrown + unit" where
  "render_summary s =
     (case displayedSummary s of
        None \<Rightarrow> Inr ()
      | Some v \<Rightarrow> (if truthy_summary (Some v) then SummaryCard v else Inr ()))"

subsection \<open>The rehydration effect\<close>

definition rehydrationEffect :: "HomePage \<Rightarrow> HomePage \<times> action list" where
  "rehydrationEffect s =
     (let cached = sessionStorage s
      in if truthy_stored cached \<and> \<not> truthy_summary (localSummary s)
         then (case JSON_parse (the cached) of
                 Inr parsed \<Rightarrow> (s\<lparr>localSummary := parsed\<rparr>, [])
               | Inl err \<Rightarrow> (s, [ConsoleError]))
         else (s, []))"

text \<open>
  An effect with the dependency list \<^verbatim>\<open>[localSummary]\<close> runs after the first render and
  after every render in which \<^verbatim>\<open>localSummary\<close> differs from the render before.
\<close>

definition rerender :: "HomePage \<Rightarrow> HomePage \<Rightarrow> HomePage" where
  "rerender before s = (if localSummary s \<noteq> localSummary before then fst (rehydrationEffect s) else s)"

section \<open>Measures and sample values\<close>

text \<open>The creation instant of an event whose \<^verbatim>\<open>createdAt\<close> is a valid date.\<close>

definition createdMs :: "(string \<Rightarrow> int option) \<Rightarrow> PromptEvent \<Rightarrow> int" where
  "createdMs getTime e = the (getTime (createdAt e))"

text \<open>How many suspended calls still wait for the finalize call to settle.\<close>

fun finalizing :: "suspended list \<Rightarrow> nat" where
  "finalizing [] = 0"
| "finalizing (AwaitFinalize sid # rest) = Suc (finalizing rest)"
| "finalizing (AwaitFetch sid # rest) = finalizing rest"

text \<open>The page as \<^verbatim>\<open>useState\<close> and \<^verbatim>\<open>useRef\<close> initialise it, over a given storage slot.\<close>

definition initialRecorder :: AudioRecorder where
  "initialRecorder =
     \<lparr>mediaRecorderRef = None, isRecording = False, recordingError = None, chunkSequenceRef = 0\<rparr>"

definition initialPage :: "stored option \<Rightarrow> HomePage" where
  "initialPage storage =
     \<lparr>sessionPhase = idle, sessionId = None, events = [], localSummary = None,
      persistedSummary = None, isCompleting = False, isFetchingPersisted = False,
      error = None, eventSourceRef = None, completionGuard = False,
      recorder = initialRecorder, sessionStorage = storage\<rparr>"

definition freshTimer :: "real \<Rightarrow> SessionTimer" where
  "freshTimer durationMs =
     \<lparr>remainingMs = durationMs, start_at = 0, requested = False, expireCalls = 0\<rparr>"

definition sampleTime :: "string \<Rightarrow> int option" where
  "sampleTime txt =
     (if txt = ''2024-01-01T00:00:05.000Z'' then Some 1704067205000
      else if txt = ''2024-01-01T00:00:01.000Z'' then Some 1704067201000
      else None)"

definition e1 :: PromptEvent where
  "e1 = \<lparr>id_ev = ''e1'', type_ev = prompt, content = ''How was your day?'', audioUrl = None,
          createdAt = ''2024-01-01T00:00:05.000Z''\<rparr>"

definition e2 :: PromptEvent where
  "e2 = \<lparr>id_ev = ''e2'', type_ev = response, content = ''Welcome'', audioUrl = None,
          createdAt = ''2024-01-01T00:00:01.000Z''\<rparr>"

definition sampleResponse :: SessionStartResponse where
  "sampleResponse =
     \<lparr>sessionId_r = ''s1'', expiresAt = ''2024-01-01T00:05:00.000Z'', initialPrompt = Some e1\<rparr>"

definition sampleSummary :: SessionSummary where
  "sampleSummary =
     \<lparr>summary = ''calm'', tips = [''walk''], generatedAt = ''2024-01-01T00:05:00.000Z''\<rparr>"

text \<open>A session under way: started, recording, its event source open.\<close>

definition runningPage :: HomePage where
  "runningPage =
     (initialPage None)\<lparr>sessionPhase := running, sessionId := Some ''s1'', events := [e1],
        eventSourceRef := Some ''s1'',
        recorder := initialRecorder\<lparr>mediaRecorderRef := Some recording, isRecording := True\<rparr>\<rparr>"

text \<open>The same session after its completion ran through, both remote calls fulfilled.\<close>

definition completedPage :: HomePage where
  "completedPage =
     fst (completion_run
            [Invoke (Some ''s1''), FinalizeSettles (Inr sampleSummary), FetchSettles (Inr sampleSummary)]
            runningPage)"

section \<open>The sample session, evaluated\<close>

lemma completedPage_eq:
  "completedPage =
     \<lparr>sessionPhase = completed, sessionId = Some ''s1'', events = [e1],
      localSummary = Some (Summary sampleSummary), persistedSummary = Some sampleSummary,
      isCompleting = False, isFetchingPersisted = False, error = None,
      eventSourceRef = Some ''s1'', completionGuard = True,
      recorder = \<lparr>mediaRecorderRef = Some inactive, isRecording = True, recordingError = None,
                   chunkSequenceRef = 0\<rparr>,
      sessionStorage = Some (Serialized sampleSummary)\<rparr>"
  by (simp add: completedPage_def runningPage_def initialPage_def initialRecorder_def
        completion_run_def handleSessionComplete_enter_def handleSessionComplete_finalized_def
        handleSessionComplete_fetched_def stopRecording_def stop_def eventSource_close_def
        complete_finally_def complete_catch_def JSON_stringify_def)

section \<open>Exactly-once completion\<close>

lemma enter_guarded: "completionGuard s \<Longrightarrow> handleSessionComplete_enter sid s = (s, [], [])"
  by (simp add: handleSessionComplete_enter_def)

lemma enter_falsy: "falsy sid \<Longrightarrow> handleSessionComplete_enter sid s = (s, [], [])"
  by (simp add: handleSessionComplete_enter_def)

lemma stopRecording_guard: "completionGuard (fst (stopRecording s)) = completionGuard s"
  by (simp add: stopRecording_def split: prod.splits)

lemma stopRecording_acts:
  "count_list (snd (stopRecording s)) StopRecording = 1"
  "filter is_finalize (snd (stopRecording s)) = []"
  "filter is_fetch (snd (stopRecording s)) = []"
  "count_list (snd (stopRecording s)) CloseEventSource = 0"
  by (auto simp: stopRecording_def stop_def split: prod.splits option.splits RecordingState.splits)

lemma enter_fresh:
  assumes "\<not> falsy sid" "\<not> completionGuard s"
  shows "\<exists>s' acts. handleSessionComplete_enter sid s = (s', acts, [AwaitFinalize (the sid)])
     \<and> completionGuard s' \<and> count_list acts StopRecording = 1 \<and> length (filter is_finalize acts) = 1
     \<and> filter is_fetch acts = []
     \<and> count_list acts CloseEventSource = (if eventSourceRef s = None then 0 else 1)"
  using assms stopRecording_acts[of "s\<lparr>completionGuard := True, isCompleting := True\<rparr>"]
    stopRecording_guard[of "s\<lparr>completionGuard := True, isCompleting := True\<rparr>"]
  by (auto simp: handleSessionComplete_enter_def eventSource_close_def stopRecording_def
        split: prod.splits option.splits)

lemma finalizing_append: "finalizing (xs @ ys) = finalizing xs + finalizing ys"
  by (induction xs rule: finalizing.induct) auto

lemma finalizing_remove_fin:
  "awaiting_finalize susp = Some sid \<Longrightarrow> Suc (finalizing (remove1 (AwaitFinalize sid) susp)) = finalizing susp"
  by (induction susp rule: awaiting_finalize.induct) auto

lemma finalizing_remove_fetch:
  "finalizing (remove1 (AwaitFetch sid) susp) = finalizing susp"
  by (induction susp rule: finalizing.induct) auto

lemma step_guarded:
  assumes "completionGuard s" "completion_step ev (s, susp, tr) = (s', susp', tr')"
  shows "completionGuard s' \<and> count_list tr' StopRecording = count_list tr StopRecording
    \<and> length (filter is_finalize tr') = length (filter is_finalize tr)
    \<and> count_list tr' CloseEventSource = count_list tr CloseEventSource
    \<and> length (filter is_fetch tr') + finalizing susp' \<le> length (filter is_fetch tr) + finalizing susp"
proof (cases ev)
  case (Invoke sid)
  with assms show ?thesis by (auto simp: enter_guarded)
next
  case (FinalizeSettles settled)
  show ?thesis
  proof (cases "awaiting_finalize susp")
    case None
    with assms FinalizeSettles show ?thesis by auto
  next
    case (Some sid)
    from finalizing_remove_fin[OF Some] assms FinalizeSettles Some show ?thesis
      by (auto simp: handleSessionComplete_finalized_def complete_finally_def complete_catch_def
            finalizing_append split: sum.splits)
  qed
next
  case (FetchSettles settled)
  with assms show ?thesis
    by (auto simp: handleSessionComplete_fetched_def complete_finally_def complete_catch_def
          finalizing_append finalizing_remove_fetch split: sum.splits option.splits)
qed

lemma run_guarded:
  assumes "completionGuard s"
    "foldl (\<lambda>st ev. completion_step ev st) (s, susp, tr) evs = (s', susp', tr')"
  shows "completionGuard s' \<and> count_list tr' StopRecording = count_list tr StopRecording
    \<and> length (filter is_finalize tr') = length (filter is_finalize tr)
    \<and> count_list tr' CloseEventSource = count_list tr CloseEventSource
    \<and> length (filter is_fetch tr') + finalizing susp' \<le> length (filter is_fetch tr) + finalizing susp"
  using assms
proof (induction evs arbitrary: s susp tr)
  case Nil
  then show ?case by simp
next
  case (Cons ev evs)
  obtain s1 susp1 tr1 where st: "completion_step ev (s, susp, tr) = (s1, susp1, tr1)"
    by (cases "completion_step ev (s, susp, tr)") auto
  from step_guarded[OF Cons.prems(1) st] have g: "completionGuard s1" by simp
  from Cons.prems(2) st have "foldl (\<lambda>st ev. completion_step ev st) (s1, susp1, tr1) evs = (s', susp', tr')"
    by simp
  from Cons.IH[OF g this] step_guarded[OF Cons.prems(1) st] show ?case by linarith
qed

lemma step_fetches_grow:
  assumes "completion_step ev (s, susp, tr) = (s', susp', tr')"
  shows "length (filter is_fetch tr) \<le> length (filter is_fetch tr')"
  using assms
  by (cases ev) (auto split: prod.splits option.splits)

lemma run_fetches_grow:
  assumes "foldl (\<lambda>st ev. completion_step ev st) (s, susp, tr) evs = (s', susp', tr')"
  shows "length (filter is_fetch tr) \<le> length (filter is_fetch tr')"
  using assms
proof (induction evs arbitrary: s susp tr)
  case Nil
  then show ?case by simp
next
  case (Cons ev evs)
  obtain s1 susp1 tr1 where st: "completion_step ev (s, susp, tr) = (s1, susp1, tr1)"
    by (cases "completion_step ev (s, susp, tr)") auto
  with Cons.prems have "foldl (\<lambda>st ev. completion_step ev st) (s1, susp1, tr1) evs = (s', susp', tr')"
    by simp
  from Cons.IH[OF this] step_fetches_grow[OF st] show ?case by linarith
qed

lemma run_settled:
  assumes "completionGuard s" "finalizing susp = 0"
    "foldl (\<lambda>st ev. completion_step ev st) (s, susp, tr) evs = (s', susp', tr')"
  shows "length (filter is_fetch tr') = length (filter is_fetch tr)"
  using run_guarded[OF assms(1) assms(3)] run_fetches_grow[OF assms(3)] assms(2) by linarith

lemma run_pending_finalize:
  assumes "completionGuard s"
    "foldl (\<lambda>st ev. completion_step ev st) (s, [AwaitFinalize sid], tr) evs = (s', susp', tr')"
  shows "length (filter is_fetch tr') = length (filter is_fetch tr) + (if fetch_due True evs then 1 else 0)"
  using assms
proof (induction evs arbitrary: s tr)
  case Nil
  then show ?case by simp
next
  case (Cons ev evs)
  show ?case
  proof (cases ev)
    case (Invoke c)
    with Cons.prems have "foldl (\<lambda>st ev. completion_step ev st) (s, [AwaitFinalize sid], tr) evs = (s', susp', tr')"
      by (simp add: enter_guarded)
    from Cons.IH[OF Cons.prems(1) this] Invoke show ?thesis by simp
  next
    case (FetchSettles settled)
    with Cons.prems have "foldl (\<lambda>st ev. completion_step ev st) (s, [AwaitFinalize sid], tr) evs = (s', susp', tr')"
      by simp
    from Cons.IH[OF Cons.prems(1) this] FetchSettles show ?thesis by simp
  next
    case (FinalizeSettles settled)
    show ?thesis
    proof (cases settled)
      case (Inr summ)
      let ?s1 = "s\<lparr>localSummary := Some (Summary summ), sessionStorage := Some (JSON_stringify summ),
                    isFetchingPersisted := True\<rparr>"
      from Cons.prems(2) FinalizeSettles Inr
      have f: "foldl (\<lambda>st ev. completion_step ev st)
                 (?s1, [AwaitFetch sid], tr @ [CallFetchPersistedSummary sid]) evs = (s', susp', tr')"
        by (simp add: handleSessionComplete_finalized_def)
      have g: "completionGuard ?s1" using Cons.prems(1) by simp
      from run_settled[OF g _ f] FinalizeSettles Inr show ?thesis by simp
    next
      case (Inl err)
      let ?s1 = "complete_finally (complete_catch err s)"
      from Cons.prems(2) FinalizeSettles Inl
      have f: "foldl (\<lambda>st ev. completion_step ev st) (?s1, [], tr @ [ConsoleError]) evs = (s', susp', tr')"
        by (simp add: handleSessionComplete_finalized_def)
      have g: "completionGuard ?s1"
        using Cons.prems(1) by (simp add: complete_finally_def complete_catch_def)
      from run_settled[OF g _ f] FinalizeSettles Inl show ?thesis by simp
    qed
  qed
qed

lemma step_idle:
  assumes "\<not> effective ev"
  shows "completion_step ev (s, [], []) = (s, [], [])"
  using assms by (cases ev) (auto simp: enter_falsy split: if_splits)

lemma fetch_due_idle:
  assumes "\<not> effective ev"
  shows "fetch_due False (ev # evs) = fetch_due False evs"
  using assms by (cases ev) (auto split: if_splits)

lemma run_fresh:
  assumes "\<not> completionGuard s" "completion_run evs s = (s', susp', tr')"
  shows "completionGuard s' = list_ex effective evs
    \<and> count_list tr' StopRecording = (if list_ex effective evs then 1 else 0)
    \<and> length (filter is_finalize tr') = (if list_ex effective evs then 1 else 0)
    \<and> count_list tr' CloseEventSource
        = (if list_ex effective evs \<and> eventSourceRef s \<noteq> None then 1 else 0)
    \<and> length (filter is_fetch tr') = (if fetch_due False evs then 1 else 0)"
  using assms unfolding completion_run_def
proof (induction evs)
  case Nil
  then show ?case by simp
next
  case (Cons ev evs)
  show ?case
  proof (cases "effective ev")
    case False
    with Cons show ?thesis by (simp add: step_idle fetch_due_idle)
  next
    case True
    then obtain sid where ev: "ev = Invoke sid" and sid: "\<not> falsy sid"
      by (cases ev) (auto split: if_splits)
    from enter_fresh[OF sid Cons.prems(1)] obtain s1 acts where
      e: "handleSessionComplete_enter sid s = (s1, acts, [AwaitFinalize (the sid)])"
      and g: "completionGuard s1"
      and c: "count_list acts StopRecording = 1" "length (filter is_finalize acts) = 1"
        "filter is_fetch acts = []"
        "count_list acts CloseEventSource = (if eventSourceRef s = None then 0 else 1)"
      by blast
    from Cons.prems(2) ev e
    have f: "foldl (\<lambda>st ev. completion_step ev st) (s1, [AwaitFinalize (the sid)], acts) evs = (s', susp', tr')"
      by simp
    from run_guarded[OF g f] run_pending_finalize[OF g f] c True ev sid show ?thesis by simp
  qed
qed

text \<open>
  Claim C1. Within one session instance (the guard not yet taken), whatever calls of
  \<^verbatim>\<open>handleSessionComplete\<close> and settlings of its remote calls happen and in whatever
  order: \<^verbatim>\<open>stopRecording\<close> and the finalize call happen exactly once when some call came
  through a closure holding a session id, and not at all otherwise; the event source is
  closed exactly once then, when there is one; the persisted summary is fetched exactly
  once when the finalize call fulfils, and not at all otherwise. A call that finds the
  guard taken returns the state as it is, does nothing and suspends nowhere; and a call
  that takes the guard has taken it in the step that ends at its first suspension.
\<close>

theorem handleSessionComplete_exactly_once:
  assumes "\<not> completionGuard s"
  shows "(case completion_run evs s of (s', susp, tr) \<Rightarrow>
            count_list tr StopRecording = (if list_ex effective evs then 1 else 0)
          \<and> length (filter is_finalize tr) = (if list_ex effective evs then 1 else 0)
          \<and> count_list tr CloseEventSource
              = (if list_ex effective evs \<and> eventSourceRef s \<noteq> None then 1 else 0)
          \<and> length (filter is_fetch tr) = (if fetch_due False evs then 1 else 0)
          \<and> completionGuard s' = list_ex effective evs)
       \<and> (completionGuard st \<longrightarrow> handleSessionComplete_enter sid st = (st, [], []))
       \<and> (\<not> falsy sid \<and> \<not> completionGuard st \<longrightarrow>
            (case handleSessionComplete_enter sid st of (st', acts, susp) \<Rightarrow>
               completionGuard st' \<and> susp = [AwaitFinalize (the sid)]))"
proof -
  obtain s' susp tr where r: "completion_run evs s = (s', susp, tr)"
    by (cases "completion_run evs s") auto
  from run_fresh[OF assms r] r have "(case completion_run evs s of (s', susp, tr) \<Rightarrow>
            count_list tr StopRecording = (if list_ex effective evs then 1 else 0)
          \<and> length (filter is_finalize tr) = (if list_ex effective evs then 1 else 0)
          \<and> count_list tr CloseEventSource
              = (if list_ex effective evs \<and> eventSourceRef s \<noteq> None then 1 else 0)
          \<and> length (filter is_fetch tr) = (if fetch_due False evs then 1 else 0)
          \<and> completionGuard s' = list_ex effective evs)" by simp
  moreover have "completionGuard st \<longrightarrow> handleSessionComplete_enter sid st = (st, [], [])"
    by (simp add: enter_guarded)
  moreover have "\<not> falsy sid \<and> \<not> completionGuard st \<longrightarrow>
            (case handleSessionComplete_enter sid st of (st', acts, susp) \<Rightarrow>
               completionGuard st' \<and> susp = [AwaitFinalize (the sid)])"
    using enter_fresh[of sid st] by auto
  ultimately show ?thesis by blast
qed

theorem handleSessionComplete_exactly_once_witness:
  "\<not> completionGuard runningPage
   \<and> (case completion_run [Invoke None, Invoke (Some ''s1''), Invoke (Some ''s1''),
          FinalizeSettles (Inr sampleSummary), Invoke (Some ''s1''),
          FetchSettles (Inr sampleSummary), Invoke (Some ''s1'')] runningPage of
        (s', susp, tr) \<Rightarrow>
          tr = [StopRecording, RecorderStop, CloseEventSource, CallCompleteSession ''s1'',
                CallFetchPersistedSummary ''s1'']
        \<and> count_list tr StopRecording = 1 \<and> length (filter is_finalize tr) = 1
        \<and> count_list tr CloseEventSource = 1 \<and> length (filter is_fetch tr) = 1
        \<and> completionGuard s')
   \<and> handleSessionComplete_enter (Some ''s1'') (runningPage\<lparr>completionGuard := True\<rparr>)
        = (runningPage\<lparr>completionGuard := True\<rparr>, [], [])
   \<and> completionGuard (fst (handleSessionComplete_enter (Some ''s1'') runningPage))"
  using handleSessionComplete_exactly_once[of runningPage "[Invoke None, Invoke (Some ''s1''),
          Invoke (Some ''s1''), FinalizeSettles (Inr sampleSummary), Invoke (Some ''s1''),
          FetchSettles (Inr sampleSummary), Invoke (Some ''s1'')]"
          "runningPage\<lparr>completionGuard := True\<rparr>" "Some ''s1''"]
    handleSessionComplete_exactly_once[of runningPage "[]" runningPage "Some ''s1''"]
  by (simp add: runningPage_def initialPage_def initialRecorder_def completion_run_def
        handleSessionComplete_enter_def handleSessionComplete_finalized_def
        handleSessionComplete_fetched_def stopRecording_def stop_def eventSource_close_def
        complete_finally_def complete_catch_def JSON_stringify_def)

section \<open>The event log\<close>

lemma mset_insert_stable: "mset (insert_stable c x ys) = add_mset x (mset ys)"
  by (induction ys) auto

lemma mset_foldl_insert:
  "mset (foldl (\<lambda>acc x. insert_stable c x acc) acc xs) = mset acc + mset xs"
  by (induction xs arbitrary: acc) (auto simp: mset_insert_stable)

lemma mset_sort_js: "mset (sort_js c xs) = mset xs"
  by (simp add: sort_js_def mset_foldl_insert)

lemma set_sort_js: "set (sort_js c xs) = set xs"
  using mset_sort_js[of c xs] by (metis set_mset_mset)

lemma SortCompare_valid:
  "getTime (createdAt x) \<noteq> None \<Longrightarrow> getTime (createdAt y) \<noteq> None \<Longrightarrow>
     SortCompare (compareFn getTime) x y = createdMs getTime x - createdMs getTime y"
  by (auto simp: SortCompare_def compareFn_def createdMs_def)

lemma sorted_insert_stable:
  assumes "getTime (createdAt x) \<noteq> None" "\<forall>e\<in>set ys. getTime (createdAt e) \<noteq> None"
    "sorted (map (createdMs getTime) ys)"
  shows "sorted (map (createdMs getTime) (insert_stable (compareFn getTime) x ys))"
  using assms
proof (induction ys)
  case Nil
  then show ?case by simp
next
  case (Cons y ys)
  have sc: "SortCompare (compareFn getTime) x y = createdMs getTime x - createdMs getTime y"
    using Cons.prems by (simp add: SortCompare_valid)
  show ?case
  proof (cases "SortCompare (compareFn getTime) x y < 0")
    case True
    with sc Cons.prems show ?thesis by auto
  next
    case False
    have "set (insert_stable (compareFn getTime) x ys) = insert x (set ys)"
      using mset_insert_stable[of "compareFn getTime" x ys] by (metis set_mset_add_mset_insert set_mset_mset)
    with False sc Cons show ?thesis by auto
  qed
qed

lemma sorted_foldl_insert:
  assumes "\<forall>e\<in>set acc \<union> set xs. getTime (createdAt e) \<noteq> None"
    "sorted (map (createdMs getTime) acc)"
  shows "sorted (map (createdMs getTime) (foldl (\<lambda>acc x. insert_stable (compareFn getTime) x acc) acc xs))"
  using assms
proof (induction xs arbitrary: acc)
  case Nil
  then show ?case by simp
next
  case (Cons x xs)
  have s: "sorted (map (createdMs getTime) (insert_stable (compareFn getTime) x acc))"
    using Cons.prems by (intro sorted_insert_stable) auto
  have "set (insert_stable (compareFn getTime) x acc) = insert x (set acc)"
    using mset_insert_stable[of "compareFn getTime" x acc] by (metis set_mset_add_mset_insert set_mset_mset)
  with Cons.prems have v: "\<forall>e\<in>set (insert_stable (compareFn getTime) x acc) \<union> set xs. getTime (createdAt e) \<noteq> None"
    by auto
  from Cons.IH[OF v s] show ?case by simp
qed

lemma sorted_sort_js:
  "\<forall>e\<in>set xs. getTime (createdAt e) \<noteq> None \<Longrightarrow>
     sorted (map (createdMs getTime) (sort_js (compareFn getTime) xs))"
  using sorted_foldl_insert[of "[]" xs getTime] by (simp add: sort_js_def)

lemma appendEvent_duplicate:
  "id_ev incoming \<in> id_ev ` set prev \<Longrightarrow> appendEvent getTime incoming prev = prev"
  by (auto simp: appendEvent_def list_ex_iff)

lemma appendEvent_new:
  "id_ev incoming \<notin> id_ev ` set prev \<Longrightarrow>
     appendEvent getTime incoming prev = sort_js (compareFn getTime) (prev @ [incoming])"
  by (force simp: appendEvent_def list_ex_iff image_iff)

lemma appendEvent_ids:
  "id_ev ` set (appendEvent getTime incoming prev) = insert (id_ev incoming) (id_ev ` set prev)"
  by (cases "id_ev incoming \<in> id_ev ` set prev")
     (auto simp: appendEvent_duplicate appendEvent_new set_sort_js)

lemma appendEvent_set:
  "set (appendEvent getTime incoming prev) \<subseteq> insert incoming (set prev)"
  by (cases "id_ev incoming \<in> id_ev ` set prev")
     (auto simp: appendEvent_duplicate appendEvent_new set_sort_js)

lemma appendEvent_distinct:
  assumes "distinct (map id_ev prev)"
  shows "distinct (map id_ev (appendEvent getTime incoming prev))"
proof (cases "id_ev incoming \<in> id_ev ` set prev")
  case True
  with assms show ?thesis by (simp add: appendEvent_duplicate)
next
  case False
  have "mset (map id_ev (sort_js (compareFn getTime) (prev @ [incoming]))) = mset (map id_ev (prev @ [incoming]))"
    by (simp add: mset_sort_js)
  then have "distinct (map id_ev (sort_js (compareFn getTime) (prev @ [incoming]))) = distinct (map id_ev (prev @ [incoming]))"
    by (rule mset_eq_imp_distinct_iff)
  with False assms show ?thesis by (simp add: appendEvent_new)
qed

lemma appendEvent_sorted:
  assumes "getTime (createdAt incoming) \<noteq> None" "\<forall>e\<in>set prev. getTime (createdAt e) \<noteq> None"
    "sorted (map (createdMs getTime) prev)"
  shows "sorted (map (createdMs getTime) (appendEvent getTime incoming prev))"
proof (cases "id_ev incoming \<in> id_ev ` set prev")
  case True
  with assms show ?thesis by (simp add: appendEvent_duplicate)
next
  case False
  with assms show ?thesis by (simp add: appendEvent_new sorted_sort_js)
qed

lemma admit_all_snoc:
  "admit_all getTime (xs @ [x]) prev = appendEvent getTime x (admit_all getTime xs prev)"
  by (simp add: admit_all_def)

lemma admit_all_inv:
  assumes "\<forall>e\<in>set prev \<union> set incomings. getTime (createdAt e) \<noteq> None"
    "distinct (map id_ev prev)" "sorted (map (createdMs getTime) prev)"
  shows "distinct (map id_ev (admit_all getTime incomings prev))
     \<and> sorted (map (createdMs getTime) (admit_all getTime incomings prev))
     \<and> id_ev ` set (admit_all getTime incomings prev) = id_ev ` (set prev \<union> set incomings)
     \<and> set (admit_all getTime incomings prev) \<subseteq> set prev \<union> set incomings"
  using assms
proof (induction incomings rule: rev_induct)
  case Nil
  then show ?case by (simp add: admit_all_def)
next
  case (snoc x xs)
  let ?mid = "admit_all getTime xs prev"
  from snoc have ih: "distinct (map id_ev ?mid)" "sorted (map (createdMs getTime) ?mid)"
    "id_ev ` set ?mid = id_ev ` (set prev \<union> set xs)" "set ?mid \<subseteq> set prev \<union> set xs"
    by auto
  from ih(4) snoc.prems(1) have v: "\<forall>e\<in>set ?mid. getTime (createdAt e) \<noteq> None" by auto
  from snoc.prems(1) have vx: "getTime (createdAt x) \<noteq> None" by simp
  show ?case
    unfolding admit_all_snoc
    using appendEvent_distinct[OF ih(1), of getTime x] appendEvent_sorted[OF vx v ih(2)]
      appendEvent_ids[of getTime x ?mid] appendEvent_set[of getTime x ?mid] ih(3) ih(4)
    by auto
qed

text \<open>
  Claim C2. Events whose \<^verbatim>\<open>createdAt\<close> is a valid date are admitted one by one into the
  empty log, in any order and with repetitions. After each admission (after the first \<open>n\<close>
  of them, for every \<open>n\<close>) no two entries of the log share an id, the log is in ascending
  order of creation instant, and it holds exactly the ids admitted so far; and admitting an
  event whose id some entry has leaves any log as it is.
\<close>

theorem event_log_distinct_sorted:
  assumes "\<forall>e\<in>set incomings. getTime (createdAt e) \<noteq> None"
  shows "distinct (map id_ev (admit_all getTime (take n incomings) []))
     \<and> sorted (map (createdMs getTime) (admit_all getTime (take n incomings) []))
     \<and> id_ev ` set (admit_all getTime (take n incomings) []) = id_ev ` set (take n incomings)
     \<and> (id_ev incoming \<in> id_ev ` set prev \<longrightarrow> appendEvent getTime incoming prev = prev)"
proof -
  from assms have "\<forall>e\<in>set [] \<union> set (take n incomings). getTime (createdAt e) \<noteq> None"
    by (auto dest: in_set_takeD)
  from admit_all_inv[OF this] show ?thesis by (simp add: appendEvent_duplicate)
qed

theorem event_log_distinct_sorted_witness:
  "sampleTime (createdAt e1) = Some 1704067205000
   \<and> sampleTime (createdAt e2) = Some 1704067201000
   \<and> admit_all sampleTime (take 1 [e1, e2, e1]) [] = [e1]
   \<and> admit_all sampleTime (take 2 [e1, e2, e1]) [] = [e2, e1]
   \<and> admit_all sampleTime (take 3 [e1, e2, e1]) [] = [e2, e1]
   \<and> distinct (map id_ev (admit_all sampleTime (take 3 [e1, e2, e1]) []))
   \<and> sorted (map (createdMs sampleTime) (admit_all sampleTime (take 3 [e1, e2, e1]) []))
   \<and> appendEvent sampleTime e1 [e2, e1] = [e2, e1]"
proof -
  have v: "\<forall>e\<in>set [e1, e2, e1]. sampleTime (createdAt e) \<noteq> None"
    by (simp add: sampleTime_def e1_def e2_def)
  have d: "id_ev e1 \<in> id_ev ` set [e2, e1]" by simp
  have l: "admit_all sampleTime (take 1 [e1, e2, e1]) [] = [e1]"
    "admit_all sampleTime (take 2 [e1, e2, e1]) [] = [e2, e1]"
    "admit_all sampleTime (take 3 [e1, e2, e1]) [] = [e2, e1]"
    by (simp_all add: admit_all_def appendEvent_def sort_js_def SortCompare_def compareFn_def
        sampleTime_def e1_def e2_def)
  have w: "sampleTime (createdAt e1) = Some 1704067205000"
    "sampleTime (createdAt e2) = Some 1704067201000"
    by (simp_all add: sampleTime_def e1_def e2_def)
  from event_log_distinct_sorted[OF v, where n = 3 and incoming = e1 and prev = "[e2, e1]"] d w l
  show ?thesis by blast
qed

section \<open>Failure of the microphone\<close>

text \<open>
  Claim C3, at a concrete start from the initial page: the remote start fulfils with
  session \<^verbatim>\<open>s1\<close> and the microphone request is rejected. The recorder's \<^verbatim>\<open>start\<close> catches
  the rejection, so the \<^verbatim>\<open>catch\<close> of \<^verbatim>\<open>handleSessionStart\<close>, which would set the phase to
  \<^verbatim>\<open>idle\<close> and clear the id, is not reached: the call ends with the phase \<^verbatim>\<open>running\<close>, the
  id kept and the timer handed \<^verbatim>\<open>isRunning\<close>, while nothing records and only the recorder's
  own error tells of the failure.
\<close>

theorem microphone_failure_phase_not_idle:
  "sessionPhase (fst (handleSessionStart sampleTime (Inr sampleResponse) (Inl (Error ''Permission denied''))
      (initialPage None))) = running
   \<and> sessionPhase (fst (handleSessionStart sampleTime (Inr sampleResponse) (Inl (Error ''Permission denied''))
      (initialPage None))) \<noteq> idle
   \<and> sessionId (fst (handleSessionStart sampleTime (Inr sampleResponse) (Inl (Error ''Permission denied''))
      (initialPage None))) = Some ''s1''
   \<and> timer_isRunning (fst (handleSessionStart sampleTime (Inr sampleResponse)
      (Inl (Error ''Permission denied'')) (initialPage None)))
   \<and> recorder (fst (handleSessionStart sampleTime (Inr sampleResponse)
      (Inl (Error ''Permission denied'')) (initialPage None)))
       = initialRecorder\<lparr>recordingError := Some ''Permission denied''\<rparr>
   \<and> error (fst (handleSessionStart sampleTime (Inr sampleResponse)
      (Inl (Error ''Permission denied'')) (initialPage None))) = None"
  by (simp add: handleSessionStart_def handleSessionStart_enter_def handleSessionStart_started_def
        handleSessionStart_recording_def start_def resetSessionState_def initialPage_def
        initialRecorder_def sampleResponse_def timer_isRunning_def Let_def)

section \<open>Failure of the persisted fetch\<close>

text \<open>
  Claim C4, as stated, at a concrete completion: finalize succeeds, the fetch of the
  persisted summary fails, and the page's error, empty before, holds the failure's message.
\<close>

theorem persisted_fetch_failure_sets_error:
  "(case handleSessionComplete_finalized ''s1'' (Inr sampleSummary)
          (fst (handleSessionComplete_enter (Some ''s1'') runningPage)) of
      (s1, a1, p1) \<Rightarrow>
        (case handleSessionComplete_fetched ''s1'' (Inl (Error ''API request failed with status 500'')) s1 of
           (s2, a2, p2) \<Rightarrow> error s1 = None \<and> error s2 = Some ''API request failed with status 500''))"
  by (simp add: runningPage_def initialPage_def initialRecorder_def
        handleSessionComplete_enter_def handleSessionComplete_finalized_def
        handleSessionComplete_fetched_def stopRecording_def stop_def eventSource_close_def
        complete_finally_def complete_catch_def JSON_stringify_def)

text \<open>
  Claim C4, amended. When finalize has succeeded and the fetch of the persisted summary
  fails, the local summary stays, the persisted summary is untouched (so the local one is
  displayed when no persisted one was there), nothing is called again and nothing stays
  suspended, the phase is untouched and both progress flags are cleared; the failure is
  logged and its message is put into the page's error.
\<close>

theorem persisted_fetch_failure_keeps_local_summary:
  "(case handleSessionComplete_finalized sid (Inr summ) s of
      (s1, a1, p1) \<Rightarrow>
        (case handleSessionComplete_fetched sid (Inl err) s1 of
           (s2, a2, p2) \<Rightarrow>
             localSummary s2 = Some (Summary summ)
           \<and> persistedSummary s2 = persistedSummary s
           \<and> (persistedSummary s = None \<longrightarrow> displayedSummary s2 = Some (Summary summ))
           \<and> a2 = [ConsoleError] \<and> p2 = []
           \<and> error s2 = Some (message_or err ''Session completion failed'')
           \<and> sessionPhase s2 = sessionPhase s
           \<and> isCompleting s2 = False \<and> isFetchingPersisted s2 = False))"
  by (simp add: handleSessionComplete_finalized_def handleSessionComplete_fetched_def
        complete_finally_def complete_catch_def displayedSummary_def)

theorem persisted_fetch_failure_keeps_local_summary_witness:
  "persistedSummary (fst (handleSessionComplete_enter (Some ''s1'') runningPage)) = None
   \<and> (case handleSessionComplete_finalized ''s1'' (Inr sampleSummary)
             (fst (handleSessionComplete_enter (Some ''s1'') runningPage)) of
        (s1, a1, p1) \<Rightarrow>
          (case handleSessionComplete_fetched ''s1'' (Inl NonError) s1 of
             (s2, a2, p2) \<Rightarrow>
               localSummary s2 = Some (Summary sampleSummary)
             \<and> displayedSummary s2 = Some (Summary sampleSummary)
             \<and> a2 = [ConsoleError] \<and> p2 = []
             \<and> error s2 = Some ''Session completion failed''
             \<and> sessionPhase s2 = completed))"
proof -
  have p: "persistedSummary (fst (handleSessionComplete_enter (Some ''s1'') runningPage)) = None"
    and q: "sessionPhase (fst (handleSessionComplete_enter (Some ''s1'') runningPage)) = completed"
    by (simp_all add: runningPage_def initialPage_def initialRecorder_def
          handleSessionComplete_enter_def stopRecording_def stop_def)
  from p q persisted_fetch_failure_keeps_local_summary[where sid = "''s1''" and summ = sampleSummary
      and err = NonError and s = "fst (handleSessionComplete_enter (Some ''s1'') runningPage)"]
  show ?thesis by (simp split: prod.splits)
qed

section \<open>Failure of the remote start\<close>

text \<open>
  Claim C5. \<^verbatim>\<open>handleSessionStart\<close> is called while no session runs (the Start button is
  disabled while one does) and the remote start fails. Then the call ends in the
  \<^verbatim>\<open>catch\<close>: the phase is \<^verbatim>\<open>idle\<close>, the session id is cleared, the page's error holds
  the message, the only calls made are the remote start and the log; the recorder and the
  event-source reference are untouched, and neither while the call waits nor after it does
  the page hand the timer \<^verbatim>\<open>isRunning\<close> or does the event-stream effect open a source.
\<close>

theorem session_start_failure_aborts:
  assumes "sessionPhase s \<noteq> running"
  shows "(case handleSessionStart_enter s of (s1, a1) \<Rightarrow>
           (case handleSessionStart_started getTime (Inl err) s1 of (s2, a2) \<Rightarrow>
              handleSessionStart getTime (Inl err) acquired s = (s2, a1 @ a2)
            \<and> sessionPhase s2 = idle
            \<and> sessionId s2 = None
            \<and> error s2 = Some (message_or err ''Unable to start session'')
            \<and> a1 @ a2 = [CallStartSession, ConsoleError]
            \<and> recorder s2 = recorder s
            \<and> eventSourceRef s2 = eventSourceRef s
            \<and> timer_isRunning s1 = False \<and> timer_isRunning s2 = False
            \<and> eventStreamEffect_opens s1 = False \<and> eventStreamEffect_opens s2 = False))"
  using assms
  by (simp add: handleSessionStart_def handleSessionStart_enter_def handleSessionStart_started_def
        resetSessionState_def timer_isRunning_def eventStreamEffect_opens_def)

theorem session_start_failure_aborts_witness:
  "sessionPhase completedPage \<noteq> running
   \<and> handleSessionStart sampleTime (Inl (Error ''API request failed with status 503'')) (Inr ())
         completedPage
       = (completedPage\<lparr>events := [], localSummary := None, persistedSummary := None,
            completionGuard := False, sessionPhase := idle, sessionId := None,
            error := Some ''API request failed with status 503''\<rparr>,
          [CallStartSession, ConsoleError])"
proof -
  have h: "sessionPhase completedPage \<noteq> running" by (simp add: completedPage_eq)
  from session_start_failure_aborts[OF h, where getTime = sampleTime
      and err = "Error ''API request failed with status 503''" and acquired = "Inr ()"] h
  show ?thesis
    by (simp add: completedPage_eq handleSessionStart_enter_def handleSessionStart_started_def
          resetSessionState_def split: prod.splits)
qed

section \<open>What a new session shows of the one before\<close>

text \<open>
  Claim C6, at the page a completed session leaves behind: \<^verbatim>\<open>handleSessionStart\<close> clears
  the local summary, and the render that follows runs the rehydration effect (its
  dependency changed), which reads the summary of the finished session back from the
  storage slot; that summary is again the local and the displayed one while the new
  session has produced nothing.
\<close>

theorem prior_summary_reappears_after_reset:
  "localSummary (fst (handleSessionStart_enter completedPage)) = None
   \<and> localSummary (rerender completedPage (fst (handleSessionStart_enter completedPage)))
       = Some (Summary sampleSummary)
   \<and> displayedSummary (rerender completedPage (fst (handleSessionStart_enter completedPage)))
       = Some (Summary sampleSummary)
   \<and> events (rerender completedPage (fst (handleSessionStart_enter completedPage))) = []"
  by (simp add: completedPage_eq handleSessionStart_enter_def resetSessionState_def rerender_def
        rehydrationEffect_def displayedSummary_def Let_def)

section \<open>Chunk sequence numbers\<close>

lemma seq_app: "sequences (xs @ ys) = sequences xs @ sequences ys"
  by (induction xs rule: sequences.induct) auto

lemma recorder_fold:
  "foldl (\<lambda>st ev. recorder_step ev st) (r, tr) evs = (r', tr') \<Longrightarrow>
     sequences tr' = sequences tr @ [Suc (chunkSequenceRef r) ..< Suc (chunkSequenceRef r + nonempty_chunks evs)]
     \<and> chunkSequenceRef r' = chunkSequenceRef r + nonempty_chunks evs"
proof (induction evs arbitrary: r tr)
  case Nil
  then show ?case by simp
next
  case (Cons ev evs)
  show ?case
  proof (cases ev)
    case (DataAvailable n)
    show ?thesis
    proof (cases "n > 0")
      case True
      from Cons.prems DataAvailable True
      have "foldl (\<lambda>st ev. recorder_step ev st)
              (r\<lparr>chunkSequenceRef := chunkSequenceRef r + 1\<rparr>, tr @ [OnChunk (chunkSequenceRef r + 1)]) evs = (r', tr')"
        by (simp add: Let_def)
      from Cons.IH[OF this] DataAvailable True show ?thesis
        by (simp add: seq_app upt_conv_Cons)
    next
      case False
      with Cons DataAvailable show ?thesis by simp
    qed
  next
    case (SinkSettled ok)
    with Cons.prems have "foldl (\<lambda>st ev. recorder_step ev st) (r, if ok then tr else tr @ [ConsoleError]) evs = (r', tr')"
      by (simp split: if_splits)
    from Cons.IH[OF this] SinkSettled show ?thesis by (simp add: seq_app)
  next
    case Stopped
    with Cons.prems have "foldl (\<lambda>st ev. recorder_step ev st) (r\<lparr>isRecording := False\<rparr>, tr) evs = (r', tr')"
      by simp
    from Cons.IH[OF this] Stopped show ?thesis by simp
  qed
qed

text \<open>
  Claim C7. A successful \<^verbatim>\<open>start\<close> leaves the counter at 0, and whatever events of the
  recorder follow (chunks, empty chunks, sink promises fulfilling or rejecting at any
  point, the stop event), the sequence numbers handed to the sink are 1, 2, ..., k in
  this order, k the number of non-empty chunks, and the counter ends at k.
\<close>

theorem chunk_sequences_consecutive:
  "(case start (Inr ()) r of (r0, a0) \<Rightarrow>
      chunkSequenceRef r0 = 0
    \<and> (case recorder_run evs r0 of (r', tr) \<Rightarrow>
          sequences tr = [1 ..< Suc (nonempty_chunks evs)]
        \<and> chunkSequenceRef r' = nonempty_chunks evs))"
proof -
  obtain r0 a0 where s: "start (Inr ()) r = (r0, a0)" by (cases "start (Inr ()) r") auto
  then have z: "chunkSequenceRef r0 = 0" by (auto simp: start_def)
  obtain r' tr where f: "foldl (\<lambda>st ev. recorder_step ev st) (r0, []) evs = (r', tr)"
    by (cases "foldl (\<lambda>st ev. recorder_step ev st) (r0, []) evs") auto
  from recorder_fold[OF f] z s f show ?thesis by (simp add: recorder_run_def)
qed

theorem chunk_sequences_consecutive_witness:
  "(case start (Inr ()) \<lparr>mediaRecorderRef = Some inactive, isRecording = False, recordingError = None, chunkSequenceRef = 7\<rparr> of (r0, a0) \<Rightarrow>
      chunkSequenceRef r0 = 0
    \<and> (case recorder_run [DataAvailable 10, SinkSettled False, DataAvailable 0, DataAvailable 4,
             DataAvailable 9, SinkSettled True, Stopped] r0 of (r', tr) \<Rightarrow>
          sequences tr = [1, 2, 3] \<and> chunkSequenceRef r' = 3))"
  using chunk_sequences_consecutive[where r = "\<lparr>mediaRecorderRef = Some inactive, isRecording = False, recordingError = None, chunkSequenceRef = 7\<rparr>"
      and evs = "[DataAvailable 10, SinkSettled False, DataAvailable 0, DataAvailable 4,
             DataAvailable 9, SinkSettled True, Stopped]"]
  by (simp add: start_def recorder_run_def upt_conv_Cons)

section \<open>The countdown timer\<close>

lemma frames_Nil: "frames D [] t = t"
  by (simp add: frames_def)
lemma frames_Cons: "frames D (now # nows) t = frames D nows (animation_frame D now t)"
  by (simp add: frames_def)
lemma frames_idle: "\<not> requested t \<Longrightarrow> frames D nows t = t"
  by (induction nows) (simp_all add: frames_Nil frames_Cons animation_frame_def)

lemma frame_early:
  "requested t \<Longrightarrow> now - start_at t < D \<Longrightarrow>
     animation_frame D now t = t\<lparr>remainingMs := D - (now - start_at t)\<rparr>"
  by (simp add: animation_frame_def tick_def Let_def max_def)

lemma frame_due:
  "requested t \<Longrightarrow> D \<le> now - start_at t \<Longrightarrow>
     animation_frame D now t = t\<lparr>requested := False, remainingMs := 0, expireCalls := expireCalls t + 1\<rparr>"
  by (simp add: animation_frame_def tick_def Let_def max_def)

lemma frames_armed:
  "requested t \<Longrightarrow>
     expireCalls (frames D nows t) = expireCalls t + (if \<exists>now\<in>set nows. D \<le> now - start_at t then 1 else 0)
   \<and> requested (frames D nows t) = (\<forall>now\<in>set nows. now - start_at t < D)
   \<and> start_at (frames D nows t) = start_at t"
proof (induction nows arbitrary: t)
  case Nil
  then show ?case by (simp add: frames_Nil)
next
  case (Cons now nows)
  show ?case
  proof (cases "now - start_at t < D")
    case True
    from frame_early[OF Cons.prems True] Cons.IH[of "t\<lparr>remainingMs := D - (now - start_at t)\<rparr>"] Cons.prems True
    show ?thesis by (auto simp: frames_Cons)
  next
    case False
    then have d: "D \<le> now - start_at t" by simp
    from frame_due[OF Cons.prems d] d
    show ?thesis by (auto simp: frames_Cons frames_idle)
  qed
qed

text \<open>
  Claim C8. A timer armed at instant \<open>now0\<close> with duration \<open>D\<close> and given the animation
  frames \<open>nows\<close> has called \<^verbatim>\<open>onExpire\<close> once if some frame came at an elapsed time of
  at least \<open>D\<close> and not at all otherwise, and has a frame request outstanding exactly when
  no such frame came; and a timer disarmed while every frame so far came before \<open>D\<close>
  calls \<^verbatim>\<open>onExpire\<close> on no later frame.
\<close>

theorem timer_expires_once:
  "(expireCalls (frames D nows (arm D now0 t)) =
      expireCalls t + (if \<exists>now\<in>set nows. D \<le> now - now0 then 1 else 0))
   \<and> (requested (frames D nows (arm D now0 t)) = (\<forall>now\<in>set nows. now - now0 < D))
   \<and> ((\<forall>now\<in>set nows. now - now0 < D) \<longrightarrow>
        expireCalls (frames D later (disarm D now1 (frames D nows (arm D now0 t)))) = expireCalls t)"
proof -
  have r: "requested (arm D now0 t)" and s: "start_at (arm D now0 t) = now0"
    and e: "expireCalls (arm D now0 t) = expireCalls t"
    by (simp_all add: arm_def timer_effect_def)
  from frames_armed[OF r, of D nows] s e
  have a: "expireCalls (frames D nows (arm D now0 t)) =
      expireCalls t + (if \<exists>now\<in>set nows. D \<le> now - now0 then 1 else 0)"
    and b: "requested (frames D nows (arm D now0 t)) = (\<forall>now\<in>set nows. now - now0 < D)"
    by simp_all
  have "\<not> requested (disarm D now1 u)" for u :: SessionTimer
    by (simp add: disarm_def timer_effect_def timer_cleanup_def)
  then have c: "frames D later (disarm D now1 u) = disarm D now1 u" for u by (rule frames_idle)
  have d: "(\<forall>now\<in>set nows. now - now0 < D) \<longrightarrow>
        expireCalls (frames D later (disarm D now1 (frames D nows (arm D now0 t)))) = expireCalls t"
  proof
    assume h: "\<forall>now\<in>set nows. now - now0 < D"
    then have "\<not> (\<exists>now\<in>set nows. D \<le> now - now0)" by (auto simp: not_le)
    with a have "expireCalls (frames D nows (arm D now0 t)) = expireCalls t" by simp
    moreover have "expireCalls (disarm D now1 u) = expireCalls u" for u :: SessionTimer
      by (simp add: disarm_def timer_effect_def timer_cleanup_def)
    ultimately show "expireCalls (frames D later (disarm D now1 (frames D nows (arm D now0 t)))) = expireCalls t"
      by (simp only: c)
  qed
  from a b d show ?thesis by blast
qed

theorem timer_expires_once_witness:
  "expireCalls (frames 300000 [1016, 150000, 301000, 301016, 301033] (arm 300000 1000 (freshTimer 300000))) = 1
   \<and> \<not> requested (frames 300000 [1016, 150000, 301000, 301016, 301033] (arm 300000 1000 (freshTimer 300000)))
   \<and> expireCalls (frames 300000 [1016, 150000] (arm 300000 1000 (freshTimer 300000))) = 0
   \<and> expireCalls (frames 300000 [301000, 301016]
        (disarm 300000 150005 (frames 300000 [1016, 150000] (arm 300000 1000 (freshTimer 300000))))) = 0"
  using timer_expires_once[where D = 300000 and nows = "[1016, 150000, 301000, 301016, 301033]"
        and ?now0.0 = 1000 and t = "freshTimer 300000" and later = "[]" and ?now1.0 = 0]
    timer_expires_once[where D = 300000 and nows = "[1016, 150000]" and ?now0.0 = 1000
        and t = "freshTimer 300000" and later = "[301000, 301016]" and ?now1.0 = 150005]
  by (simp add: freshTimer_def)

section \<open>Rehydration\<close>

text \<open>
  What the rehydration effect does, case by case: a page whose local summary is truthy
  stays as it is; a stored summary is adopted when the local one is absent; a text on
  which \<^verbatim>\<open>JSON.parse\<close> throws, or an empty slot, leaves the page as it is; and a text that
  parses to another value than a summary is adopted like a summary.
\<close>

lemma rehydrationEffect_present:
  "truthy_summary (localSummary s) \<Longrightarrow> rehydrationEffect s = (s, [])"
  by (simp add: rehydrationEffect_def)

lemma rehydrationEffect_serialized:
  "localSummary s = None \<Longrightarrow> sessionStorage s = Some (Serialized v) \<Longrightarrow>
     rehydrationEffect s = (s\<lparr>localSummary := Some (Summary v)\<rparr>, [])"
  by (simp add: rehydrationEffect_def)

lemma rehydrationEffect_unparsable:
  "sessionStorage s = Some (Malformed raw) \<Longrightarrow> fst (rehydrationEffect s) = s"
  by (simp add: rehydrationEffect_def)

lemma rehydrationEffect_empty:
  "sessionStorage s = None \<Longrightarrow> rehydrationEffect s = (s, [])"
  by (simp add: rehydrationEffect_def)

lemma rehydrationEffect_other:
  "localSummary s = None \<Longrightarrow> sessionStorage s = Some (OtherJson v) \<Longrightarrow> v \<noteq> JNull \<Longrightarrow>
     rehydrationEffect s = (s\<lparr>localSummary := Some (Miscast v)\<rparr>, [])"
  by (cases v) (simp_all add: rehydrationEffect_def)

text \<open>
  Claim C9, at a page that mounts with no local summary over a slot holding \<^verbatim>\<open>{}\<close>, which
  is well-formed JSON and no summary: the effect does not discard the value but adopts the
  empty object as the local summary, it becomes the displayed summary, and the card's
  \<^verbatim>\<open>summary.tips.map\<close> throws a \<^verbatim>\<open>TypeError\<close> where the page rendered without error before.
  The same happens with \<^verbatim>\<open>42\<close> in the slot.
\<close>

theorem rehydration_adopts_non_summary:
  "rehydrationEffect (initialPage (Some (OtherJson (JObject []))))
     = ((initialPage (Some (OtherJson (JObject []))))\<lparr>localSummary := Some (Miscast (JObject []))\<rparr>, [])
   \<and> displayedSummary (fst (rehydrationEffect (initialPage (Some (OtherJson (JObject []))))))
       = Some (Miscast (JObject []))
   \<and> render_summary (initialPage (Some (OtherJson (JObject [])))) = Inr ()
   \<and> render_summary (fst (rehydrationEffect (initialPage (Some (OtherJson (JObject []))))))
       = Inl (Error ''TypeError'')
   \<and> render_summary (fst (rehydrationEffect (initialPage (Some (OtherJson (JNumber 42))))))
       = Inl (Error ''TypeError'')"
  by (simp add: rehydrationEffect_def initialPage_def displayedSummary_def render_summary_def
        SummaryCard_def)

section \<open>Completion without a session\<close>

text \<open>
  Claim C10. A call of \<^verbatim>\<open>handleSessionComplete\<close> through a closure whose \<^verbatim>\<open>sessionId\<close>
  is \<^verbatim>\<open>null\<close> returns the page as it is, the guard included, calls nothing and suspends
  nowhere.
\<close>

theorem handleSessionComplete_without_session_noop:
  "handleSessionComplete_enter None s = (s, [], [])
   \<and> completion_run [Invoke None] s = (s, [], [])"
  by (simp add: handleSessionComplete_enter_def completion_run_def)

theorem handleSessionComplete_without_session_noop_witness:
  "handleSessionComplete_enter None (initialPage None) = (initialPage None, [], [])
   \<and> completion_run [Invoke None] (initialPage None) = (initialPage None, [], [])"
  using handleSessionComplete_without_session_noop[of "initialPage None"] by simp

end
